theory Spec2Isabelle
  imports Complex_Main
begin

section \<open>Python values used by \<^verbatim>\<open>generate_hero.py\<close>\<close>

text \<open>
  The script is a straight-line Pillow program.  Its integers are Python's unbounded
  integers (\<^typ>\<open>int\<close>); its three floating-point expressions are evaluated in IEEE-754
  binary64.  A binary64 value is represented by the rational number it denotes, and every
  arithmetic operation rounds the exact result to the nearest value with a 53-bit
  significand, ties to even.  Overflow and subnormal numbers are not represented: all
  quantities of the script lie far inside the normal range.
\<close>

datatype error = FileNotFoundError | UnidentifiedImageError | ZeroDivisionError | ValueError
  | OverflowError | MemoryError | NameError | OSError

function bit_length :: "int \<Rightarrow> nat" where
  "bit_length n = (if n \<le> 0 then 0 else Suc (bit_length (n div 2)))"
  by pat_completeness auto
termination by (relation "measure nat") auto

declare bit_length.simps [simp del]

definition ilog2 :: "rat \<Rightarrow> int" where
  \<comment> \<open>the binary exponent \<open>e\<close> of a positive rational: \<open>2\<^sup>e \<le> a < 2\<^sup>e\<^sup>+\<^sup>1\<close>\<close>
  "ilog2 a = (let (p, d) = quotient_of a;
                  k = int (bit_length p) - int (bit_length d)
              in if 2 powi k \<le> a then k else k - 1)"

definition round_half_even :: "rat \<Rightarrow> int" where
  "round_half_even m = (let f = \<lfloor>m\<rfloor>; r = m - of_int f
     in if r < 1 / 2 then f else if 1 / 2 < r then f + 1 else if even f then f else f + 1)"

definition binary64 :: "rat \<Rightarrow> rat" where
  \<comment> \<open>round to nearest, ties to even, 53 significant bits\<close>
  "binary64 q = (if q = 0 then 0 else
     let a = \<bar>q\<bar>; s = 2 powi (ilog2 a - 52)
     in sgn q * of_int (round_half_even (a / s)) * s)"

definition float_of_int :: "int \<Rightarrow> rat" where
  \<comment> \<open>the implicit conversion of an \<^verbatim>\<open>int\<close> operand of a float operation\<close>
  "float_of_int n = binary64 (of_int n)"

definition fmul :: "rat \<Rightarrow> rat \<Rightarrow> rat" where
  "fmul a b = binary64 (a * b)"

definition fsub :: "rat \<Rightarrow> rat \<Rightarrow> rat" where
  "fsub a b = binary64 (a - b)"

definition int_truediv :: "int \<Rightarrow> int \<Rightarrow> rat" where
  \<comment> \<open>\<^verbatim>\<open>a / b\<close> on two ints with \<open>b \<noteq> 0\<close>: the correctly rounded quotient\<close>
  "int_truediv a b = binary64 (of_int a / of_int b)"

definition truediv :: "int \<Rightarrow> int \<Rightarrow> error + rat" where
  "truediv a b = (if b = 0 then Inl ZeroDivisionError else Inr (int_truediv a b))"

definition py_int :: "rat \<Rightarrow> int" where
  \<comment> \<open>\<^verbatim>\<open>int(v)\<close> on a float truncates toward zero\<close>
  "py_int v = (if 0 \<le> v then \<lfloor>v\<rfloor> else \<lceil>v\<rceil>)"

definition py_round :: "rat \<Rightarrow> int" where
  \<comment> \<open>\<^verbatim>\<open>round(v)\<close> on a float: the nearest integer, a tie goes to the even one; the script
      does not call it, claim C3 compares the script with it\<close>
  "py_round v = round_half_even v"

definition py_range :: "int \<Rightarrow> int list" where
  \<comment> \<open>\<^verbatim>\<open>range(n)\<close>\<close>
  "py_range n = map int [0..<nat n]"

fun digits :: "nat \<Rightarrow> string" where
  "digits n = (if n < 10 then [char_of (48 + n)] else digits (n div 10) @ [char_of (48 + n mod 10)])"

declare digits.simps [simp del]

definition str :: "int \<Rightarrow> string" where
  \<comment> \<open>decimal rendering of an int inside an f-string\<close>
  "str n = (if n < 0 then CHR ''-'' # digits (nat (- n)) else digits (nat n))"


section \<open>Pillow images\<close>

text \<open>
  An image has a mode, a size and pixel data.  The pixel data are kept as the colour of
  each pixel in RGB (the rendition Pillow writes when the image is pasted into an RGB
  canvas) and the value of its alpha band; the alpha band is meaningful in the modes that
  have one (\<^verbatim>\<open>RGBA\<close>, \<^verbatim>\<open>LA\<close>, ...).  Coordinates are \<open>(x, y)\<close> with the origin in the
  top-left corner and \<open>y\<close> growing downwards.
\<close>

type_synonym rgb = "int \<times> int \<times> int"
type_synonym point = "int \<times> int"

record image =
  im_mode :: string
  im_width :: int
  im_height :: int
  im_rgb :: "point \<Rightarrow> rgb"
  im_alpha :: "point \<Rightarrow> int"

definition in_bounds :: "image \<Rightarrow> point \<Rightarrow> bool" where
  "in_bounds im p = (0 \<le> fst p \<and> fst p < im_width im \<and> 0 \<le> snd p \<and> snd p < im_height im)"

definition new_image :: "string \<Rightarrow> int \<times> int \<Rightarrow> rgb \<Rightarrow> image" where
  \<comment> \<open>\<^verbatim>\<open>Image.new(mode, size, color)\<close>\<close>
  "new_image m sz c =
     \<lparr>im_mode = m, im_width = fst sz, im_height = snd sz, im_rgb = (\<lambda>_. c), im_alpha = (\<lambda>_. 255)\<rparr>"

definition getpixel :: "image \<Rightarrow> point \<Rightarrow> rgb" where
  \<comment> \<open>\<^verbatim>\<open>img.getpixel(xy)\<close> for \<open>xy\<close> inside the image\<close>
  "getpixel im p = im_rgb im p"

definition clip8 :: "int \<Rightarrow> int" where
  \<comment> \<open>Pillow stores a channel value in one byte, clipping it to \<open>0..255\<close>\<close>
  "clip8 v = max 0 (min 255 v)"

definition clip_rgb :: "rgb \<Rightarrow> rgb" where
  "clip_rgb v = (case v of (r, g, b) \<Rightarrow> (clip8 r, clip8 g, clip8 b))"

definition putpixel :: "image \<Rightarrow> point \<Rightarrow> rgb \<Rightarrow> image" where
  \<comment> \<open>\<^verbatim>\<open>img.putpixel(xy, value)\<close> for \<open>xy\<close> inside the image\<close>
  "putpixel im p v = im\<lparr>im_rgb := (im_rgb im)(p := clip_rgb v)\<rparr>"

type_synonym resampler = "image \<Rightarrow> int \<times> int \<Rightarrow> ((point \<Rightarrow> rgb) \<times> (point \<Rightarrow> int)) option"

definition c_int :: "int \<Rightarrow> bool" where
  \<comment> \<open>the values of a C \<^verbatim>\<open>int\<close>, the type Pillow's C core takes a size in\<close>
  "c_int n = (- (2 ^ 31) \<le> n \<and> n < 2 ^ 31)"

definition resize :: "resampler \<Rightarrow> image \<Rightarrow> int \<times> int \<Rightarrow> error + image" where
  \<comment> \<open>\<^verbatim>\<open>im.resize(size, filter)\<close>: a size outside the C \<^verbatim>\<open>int\<close> range is an \<^verbatim>\<open>OverflowError\<close>,
      an empty size a \<^verbatim>\<open>ValueError\<close>; the filter allocates and computes the new pixel data, or
      has no memory for them (\<open>None\<close>); the mode is kept\<close>
  "resize filt im sz =
     (if \<not> c_int (fst sz) \<or> \<not> c_int (snd sz) then Inl OverflowError
      else if fst sz < 1 \<or> snd sz < 1 then Inl ValueError
      else case filt im sz of
             None \<Rightarrow> Inl MemoryError
           | Some px \<Rightarrow>
               Inr \<lparr>im_mode = im_mode im, im_width = fst sz, im_height = snd sz,
                        im_rgb = fst px, im_alpha = snd px\<rparr>)"

definition div255 :: "int \<Rightarrow> int" where
  \<comment> \<open>Pillow's rounded division by 255 on \<open>0..255\<^sup>2\<close>: \<^verbatim>\<open>tmp = a + 128, ((tmp >> 8) + tmp) >> 8\<close>\<close>
  "div255 a = (let tmp = a + 128 in (tmp div 256 + tmp) div 256)"

definition blend8 :: "int \<Rightarrow> int \<Rightarrow> int \<Rightarrow> int" where
  \<comment> \<open>one channel of a masked paste: \<open>in1\<close> is the destination, \<open>in2\<close> the source\<close>
  "blend8 m in1 in2 = div255 (in1 * (255 - m) + in2 * m)"

definition blend_rgb :: "int \<Rightarrow> rgb \<Rightarrow> rgb \<Rightarrow> rgb" where
  "blend_rgb m d s =
     (case d of (dr, dg, db) \<Rightarrow> case s of (sr, sg, sb) \<Rightarrow>
        (blend8 m dr sr, blend8 m dg sg, blend8 m db sb))"

definition paste :: "image \<Rightarrow> image \<Rightarrow> point \<Rightarrow> image option \<Rightarrow> image" where
  \<comment> \<open>\<^verbatim>\<open>im.paste(src, (x0, y0), mask)\<close>: the box of \<open>src\<close> at \<open>(x0, y0)\<close>, clipped to the
      image, is overwritten by \<open>src\<close>, or blended with it through the alpha band of the mask\<close>
  "paste im src pos msk =
     im\<lparr>im_rgb := (\<lambda>p.
         let q = (fst p - fst pos, snd p - snd pos) in
         if in_bounds im p \<and> in_bounds src q
         then (case msk of
                 None \<Rightarrow> im_rgb src q
               | Some m \<Rightarrow> blend_rgb (im_alpha m q) (im_rgb im p) (im_rgb src q))
         else im_rgb im p)\<rparr>"

datatype font = FreeTypeFont string int | DefaultFont

type_synonym rasteriser = "font \<Rightarrow> string \<Rightarrow> point \<Rightarrow> int"

definition draw_text :: "rasteriser \<Rightarrow> image \<Rightarrow> point \<Rightarrow> string \<Rightarrow> rgb \<Rightarrow> font \<Rightarrow> image" where
  \<comment> \<open>\<^verbatim>\<open>draw.text(xy, text, fill=..., font=...)\<close>: the font renders the string to a coverage
      mask anchored at \<open>xy\<close>; the fill colour is blended into the image through it\<close>
  "draw_text glyphs im pos s fill f =
     im\<lparr>im_rgb := (\<lambda>p.
         if in_bounds im p
         then blend_rgb (glyphs f s (fst p - fst pos, snd p - snd pos)) (im_rgb im p) fill
         else im_rgb im p)\<rparr>"

definition draw_rectangle :: "image \<Rightarrow> point \<times> point \<Rightarrow> rgb \<Rightarrow> image" where
  \<comment> \<open>\<^verbatim>\<open>draw.rectangle([(x0, y0), (x1, y1)], fill=...)\<close>: both corners are inside the shape\<close>
  "draw_rectangle im box fill =
     (case box of ((x0, y0), (x1, y1)) \<Rightarrow>
        im\<lparr>im_rgb := (\<lambda>p.
            if in_bounds im p \<and> x0 \<le> fst p \<and> fst p \<le> x1 \<and> y0 \<le> snd p \<and> snd p \<le> y1
            then fill else im_rgb im p)\<rparr>)"


section \<open>The environment of a run\<close>

datatype stored_file = NotAnImage | Encoded image

record world =
  files :: "string \<Rightarrow> stored_file option"
  truetype_fonts :: "string \<Rightarrow> int \<Rightarrow> bool"
  writable :: "string \<Rightarrow> bool"

record library =
  lanczos :: resampler
  glyphs :: rasteriser

definition open_image :: "world \<Rightarrow> string \<Rightarrow> error + image" where
  \<comment> \<open>\<^verbatim>\<open>Image.open(path)\<close>: the decoded file; a missing file is a \<^verbatim>\<open>FileNotFoundError\<close>, a
      file that is no image a \<^verbatim>\<open>PIL.UnidentifiedImageError\<close>\<close>
  "open_image wd path =
     (case files wd path of
        None \<Rightarrow> Inl FileNotFoundError
      | Some NotAnImage \<Rightarrow> Inl UnidentifiedImageError
      | Some (Encoded im) \<Rightarrow> Inr im)"

definition truetype :: "world \<Rightarrow> string \<Rightarrow> int \<Rightarrow> error + font" where
  \<comment> \<open>\<^verbatim>\<open>ImageFont.truetype(name, size)\<close>\<close>
  "truetype wd name sz = (if truetype_fonts wd name sz then Inr (FreeTypeFont name sz) else Inl OSError)"

definition load_default :: font where
  \<comment> \<open>\<^verbatim>\<open>ImageFont.load_default()\<close>\<close>
  "load_default = DefaultFont"


section \<open>The script\<close>

subsection \<open>Canvas and asset (lines 5 to 25)\<close>

definition width :: int where "width = 1000"
definition height :: int where "height = 420"
definition bg_color :: rgb where "bg_color = (15, 23, 42)"

definition backslash :: string where "backslash = [char_of (92 :: nat)]"

definition solid_dir :: string where
  "solid_dir = ''d:'' @ backslash @ ''source'' @ backslash @ ''repos'' @ backslash @ ''robjohnston''
     @ backslash @ ''static'' @ backslash @ ''images'' @ backslash @ ''solid'' @ backslash"

definition sensor_img_path :: string where
  "sensor_img_path = solid_dir @ ''temperature_sensor_fast-001.png''"

definition sensor_width :: int where "sensor_width = 500"

definition sensor_height :: "image \<Rightarrow> error + int" where
  \<comment> \<open>\<^verbatim>\<open>int(sensor_img.height * (sensor_width / sensor_img.width))\<close>\<close>
  "sensor_height sensor_img =
     (case truediv sensor_width (im_width sensor_img) of
        Inl e \<Rightarrow> Inl e
      | Inr ratio \<Rightarrow> Inr (py_int (fmul (float_of_int (im_height sensor_img)) ratio)))"

definition height_float :: "int \<Rightarrow> int \<Rightarrow> rat" where
  \<comment> \<open>\<^verbatim>\<open>sensor_img.height * (sensor_width / sensor_img.width)\<close> for height \<open>h\<close> and a width
      \<open>w \<noteq> 0\<close>: the float that \<open>sensor_height\<close> truncates\<close>
  "height_float h w = fmul (float_of_int h) (int_truediv sensor_width w)"

definition sensor_x :: int where "sensor_x = width - sensor_width - 20"

definition sensor_y :: "int \<Rightarrow> int" where
  "sensor_y sh = (height - sh) div 2"

definition paste_sensor :: "image \<Rightarrow> image \<Rightarrow> image" where
  \<comment> \<open>line 25; \<open>sensor_img\<close> is the resized asset\<close>
  "paste_sensor img sensor_img =
     paste img sensor_img (sensor_x, sensor_y (im_height sensor_img))
       (if im_mode sensor_img = ''RGBA'' then Some sensor_img else None)"


subsection \<open>Gradient overlay (lines 28 to 36)\<close>

definition alpha_float :: "int \<Rightarrow> rat" where
  \<comment> \<open>\<^verbatim>\<open>255 * (1 - (x / sensor_x) * 0.3)\<close>; the literal \<^verbatim>\<open>0.3\<close> is the binary64 nearest to 3/10\<close>
  "alpha_float x = fmul (float_of_int 255)
                     (fsub (float_of_int 1) (fmul (int_truediv x sensor_x) (binary64 (3 / 10))))"

definition alpha :: "int \<Rightarrow> int" where
  \<comment> \<open>\<^verbatim>\<open>int(255 * (1 - (x / sensor_x) * 0.3))\<close>\<close>
  "alpha x = py_int (alpha_float x)"

definition blend_channel :: "int \<Rightarrow> int \<Rightarrow> int \<Rightarrow> int" where
  \<comment> \<open>\<^verbatim>\<open>min(255, current[i] + (bg_color[i] - current[i]) * alpha // 255)\<close>\<close>
  "blend_channel current bg a = min 255 (current + (bg - current) * a div 255)"

definition overlay_pixel :: "int \<Rightarrow> rgb \<Rightarrow> rgb" where
  "overlay_pixel a current =
     (case current of (c0, c1, c2) \<Rightarrow> case bg_color of (b0, b1, b2) \<Rightarrow>
        (blend_channel c0 b0 a, blend_channel c1 b1 a, blend_channel c2 b2 a))"

definition overlay_step :: "int \<Rightarrow> int \<Rightarrow> image \<Rightarrow> image" where
  \<comment> \<open>the body of the inner loop\<close>
  "overlay_step x y img =
     (let current = getpixel img (x, y) in putpixel img (x, y) (overlay_pixel (alpha x) current))"

definition overlay_column :: "int \<Rightarrow> image \<Rightarrow> image" where
  \<comment> \<open>\<^verbatim>\<open>for y in range(height)\<close>\<close>
  "overlay_column x img = fold (overlay_step x) (py_range height) img"

definition gradient_overlay :: "image \<Rightarrow> image" where
  \<comment> \<open>\<^verbatim>\<open>for x in range(sensor_x)\<close>\<close>
  "gradient_overlay img = fold overlay_column (py_range sensor_x) img"


subsection \<open>Fonts (lines 39 to 46)\<close>

record font_vars =
  title_font :: "font option"
  subtitle_font :: "font option"
  small_font :: "font option"

definition unbound :: font_vars where
  "unbound = \<lparr>title_font = None, subtitle_font = None, small_font = None\<rparr>"

definition try_fonts :: "world \<Rightarrow> font_vars \<Rightarrow> font_vars \<times> error option" where
  \<comment> \<open>the \<^verbatim>\<open>try\<close> block: the variables as they are when it is left, and the exception if any\<close>
  "try_fonts wd v =
     (case truetype wd ''arial.ttf'' 48 of
        Inl e \<Rightarrow> (v, Some e)
      | Inr f1 \<Rightarrow>
          let v1 = v\<lparr>title_font := Some f1\<rparr> in
          (case truetype wd ''arial.ttf'' 28 of
             Inl e \<Rightarrow> (v1, Some e)
           | Inr f2 \<Rightarrow>
               let v2 = v1\<lparr>subtitle_font := Some f2\<rparr> in
               (case truetype wd ''arial.ttf'' 20 of
                  Inl e \<Rightarrow> (v2, Some e)
                | Inr f3 \<Rightarrow> (v2\<lparr>small_font := Some f3\<rparr>, None))))"

definition load_fonts :: "world \<Rightarrow> font_vars \<Rightarrow> error + font_vars" where
  \<comment> \<open>\<^verbatim>\<open>try: ... except: ...\<close>; the bare \<^verbatim>\<open>except\<close> handles every exception\<close>
  "load_fonts wd v =
     (case try_fonts wd v of
        (v', None) \<Rightarrow> Inr v'
      | (v', Some e) \<Rightarrow>
          Inr (v'\<lparr>title_font := Some load_default, subtitle_font := Some load_default,
                  small_font := Some load_default\<rparr>))"


subsection \<open>Text and accent shape (lines 49 to 72)\<close>

definition text_color :: rgb where "text_color = (226, 232, 240)"
definition accent_color :: rgb where "accent_color = (147, 197, 253)"
definition warning_color :: rgb where "warning_color = (248, 113, 113)"

definition title_text :: string where "title_text = ''Liskov Substitution''"
definition title_y :: int where "title_y = 80"
definition title_text2 :: string where "title_text2 = ''Principle''"
definition subtitle_y :: int where "subtitle_y = title_y + 130"
definition badge_y :: int where "badge_y = height - 60"
definition line_y :: int where "line_y = subtitle_y - 20"

datatype draw_op =
  is_Text: Text point string rgb font
| is_Rectangle: Rectangle "point \<times> point" rgb

definition draw_ops :: "font \<Rightarrow> font \<Rightarrow> font \<Rightarrow> draw_op list" where
  \<comment> \<open>the drawing calls of lines 56 to 72, in program order\<close>
  "draw_ops title subtitle small =
     [ Text (40, title_y) title_text text_color title,
       Text (40, title_y + 55) title_text2 text_color title,
       Text (40, subtitle_y) ''When Your Cheap Sensor'' accent_color subtitle,
       Text (40, subtitle_y + 35) ''Breaks Everything'' warning_color subtitle,
       Text (40, badge_y) ''SOLID PRINCIPLES'' (100, 116, 139) small,
       Rectangle ((40, line_y), (280, line_y + 3)) accent_color ]"

fun draw :: "rasteriser \<Rightarrow> draw_op \<Rightarrow> image \<Rightarrow> image" where
  "draw g (Text pos s fill f) img = draw_text g img pos s fill f"
| "draw g (Rectangle box fill) img = draw_rectangle img box fill"

definition draw_all :: "rasteriser \<Rightarrow> font_vars \<Rightarrow> image \<Rightarrow> error + image" where
  \<comment> \<open>reading a variable that was never assigned raises \<^verbatim>\<open>NameError\<close>\<close>
  "draw_all g v img =
     (case (title_font v, subtitle_font v, small_font v) of
        (Some t, Some s, Some m) \<Rightarrow> Inr (fold (draw g) (draw_ops t s m) img)
      | _ \<Rightarrow> Inl NameError)"


subsection \<open>The whole run (lines 1 to 78)\<close>

definition output_path :: string where
  "output_path = solid_dir @ ''liskov_hero.png''"

record run_result =
  saved :: "string \<times> image"
  stdout :: "string list"

definition render :: "library \<Rightarrow> world \<Rightarrow> error + image" where
  \<comment> \<open>lines 1 to 72: the raster that is handed to \<^verbatim>\<open>img.save\<close>\<close>
  "render lib wd =
     (let img = new_image ''RGB'' (width, height) bg_color in
      case open_image wd sensor_img_path of
        Inl e \<Rightarrow> Inl e
      | Inr sensor_img \<Rightarrow>
          (case sensor_height sensor_img of
             Inl e \<Rightarrow> Inl e
           | Inr sh \<Rightarrow>
               (case resize (lanczos lib) sensor_img (sensor_width, sh) of
                  Inl e \<Rightarrow> Inl e
                | Inr sensor_img' \<Rightarrow>
                    (let img1 = paste_sensor img sensor_img';
                         img2 = gradient_overlay img1
                     in case load_fonts wd unbound of
                          Inl e \<Rightarrow> Inl e
                        | Inr v \<Rightarrow> draw_all (glyphs lib) v img2))))"

definition generate_hero :: "library \<Rightarrow> world \<Rightarrow> error + run_result" where
  \<comment> \<open>the script: render, save as PNG, print two lines\<close>
  "generate_hero lib wd =
     (case render lib wd of
        Inl e \<Rightarrow> Inl e
      | Inr img \<Rightarrow>
          if writable wd output_path
          then Inr \<lparr>saved = (output_path, img),
                    stdout = [''Hero image created: '' @ output_path,
                              ''Dimensions: '' @ str width @ ''x'' @ str height]\<rparr>
          else Inl OSError)"


section \<open>Sample data\<close>


definition identity_filter :: resampler where
  "identity_filter im sz = Some (im_rgb im, im_alpha im)"

definition blank_glyphs :: rasteriser where
  "blank_glyphs f s p = 0"

definition sample_library :: library where
  "sample_library = \<lparr>lanczos = identity_filter, glyphs = blank_glyphs\<rparr>"

definition white_asset :: image where
  "white_asset = new_image ''RGB'' (1000, 600) (255, 255, 255)"

definition sample_world :: world where
  "sample_world =
     \<lparr>files = (\<lambda>p. if p = sensor_img_path then Some (Encoded white_asset) else None),
      truetype_fonts = (\<lambda>name sz. False),
      writable = (\<lambda>p. True)\<rparr>"

definition other_world :: world where
  \<comment> \<open>differs from \<open>sample_world\<close> in a second file, in the 48 point font and in the
      paths that can be written\<close>
  "other_world =
     \<lparr>files = (\<lambda>p. if p = sensor_img_path \<or> p = ''other.png'' then Some (Encoded white_asset)
                   else None),
      truetype_fonts = (\<lambda>name sz. sz = 48),
      writable = (\<lambda>p. p = output_path)\<rparr>"

definition canvas :: image where
  "canvas = new_image ''RGB'' (width, height) bg_color"





section \<open>The gradient overlay, pixel by pixel\<close>

lemma overlay_step_rgb:
  "im_rgb (overlay_step x y img) p =
     (if p = (x, y) then clip_rgb (overlay_pixel (alpha x) (im_rgb img p)) else im_rgb img p)"
  by (simp add: overlay_step_def putpixel_def getpixel_def Let_def)

lemma overlay_step_frame:
  "im_mode (overlay_step x y img) = im_mode img"
  "im_width (overlay_step x y img) = im_width img"
  "im_height (overlay_step x y img) = im_height img"
  "im_alpha (overlay_step x y img) = im_alpha img"
  by (simp_all add: overlay_step_def putpixel_def Let_def)

lemma overlay_rows_rgb:
  "im_rgb (fold (overlay_step x) (map int [0..<n]) img) p =
     (if fst p = x \<and> 0 \<le> snd p \<and> snd p < int n
      then clip_rgb (overlay_pixel (alpha x) (im_rgb img p)) else im_rgb img p)"
proof (induction n arbitrary: p)
  case 0
  show ?case by auto
next
  case (Suc n)
  show ?case
    by (cases p) (auto simp: overlay_step_rgb Suc)
qed

lemma overlay_rows_frame:
  "im_mode (fold (overlay_step x) ys img) = im_mode img"
  "im_width (fold (overlay_step x) ys img) = im_width img"
  "im_height (fold (overlay_step x) ys img) = im_height img"
  "im_alpha (fold (overlay_step x) ys img) = im_alpha img"
  by (induction ys arbitrary: img; simp add: overlay_step_frame)+

lemma overlay_column_rgb:
  "im_rgb (overlay_column x img) p =
     (if fst p = x \<and> 0 \<le> snd p \<and> snd p < height
      then clip_rgb (overlay_pixel (alpha x) (im_rgb img p)) else im_rgb img p)"
  by (simp add: overlay_column_def py_range_def overlay_rows_rgb height_def)

lemma overlay_column_frame:
  "im_mode (overlay_column x img) = im_mode img"
  "im_width (overlay_column x img) = im_width img"
  "im_height (overlay_column x img) = im_height img"
  "im_alpha (overlay_column x img) = im_alpha img"
  by (simp_all add: overlay_column_def overlay_rows_frame)

lemma overlay_columns_rgb:
  "im_rgb (fold overlay_column (map int [0..<m]) img) p =
     (if 0 \<le> fst p \<and> fst p < int m \<and> 0 \<le> snd p \<and> snd p < height
      then clip_rgb (overlay_pixel (alpha (fst p)) (im_rgb img p)) else im_rgb img p)"
proof (induction m arbitrary: p)
  case 0
  show ?case by auto
next
  case (Suc m)
  show ?case
    by (cases p) (auto simp: overlay_column_rgb Suc)
qed

lemma overlay_columns_frame:
  "im_mode (fold overlay_column xs img) = im_mode img"
  "im_width (fold overlay_column xs img) = im_width img"
  "im_height (fold overlay_column xs img) = im_height img"
  "im_alpha (fold overlay_column xs img) = im_alpha img"
  by (induction xs arbitrary: img; simp add: overlay_column_frame)+

lemma gradient_overlay_rgb:
  "im_rgb (gradient_overlay img) p =
     (if 0 \<le> fst p \<and> fst p < sensor_x \<and> 0 \<le> snd p \<and> snd p < height
      then clip_rgb (overlay_pixel (alpha (fst p)) (im_rgb img p)) else im_rgb img p)"
  by (simp add: gradient_overlay_def py_range_def overlay_columns_rgb sensor_x_def width_def
      sensor_width_def)

lemma gradient_overlay_frame:
  "im_mode (gradient_overlay img) = im_mode img"
  "im_width (gradient_overlay img) = im_width img"
  "im_height (gradient_overlay img) = im_height img"
  "im_alpha (gradient_overlay img) = im_alpha img"
  by (simp_all add: gradient_overlay_def overlay_columns_frame)

text \<open>
  Every pixel access of the two loops is inside the canvas, so neither \<^verbatim>\<open>getpixel\<close> nor
  \<^verbatim>\<open>putpixel\<close> can raise \<^verbatim>\<open>IndexError\<close> there.
\<close>

lemma overlay_accesses_in_bounds:
  assumes "x \<in> set (py_range sensor_x)" and "y \<in> set (py_range height)"
    and "im_width img = width" and "im_height img = height"
  shows "in_bounds img (x, y)"
  using assms
  by (auto simp: py_range_def in_bounds_def sensor_x_def width_def sensor_width_def height_def)


section \<open>Frame of the gradient overlay\<close>

text \<open>
  Claim C8.  The gradient overlay changes no pixel in a column \<open>x \<ge> sensor_x\<close>, which
  includes the whole region of the pasted asset; it also leaves the alpha band, the size and
  the mode of the canvas as they are.  Only columns \<open>0 \<le> x < sensor_x\<close> are written.
\<close>

theorem gradient_overlay_right_of_sensor_x:
  assumes "sensor_x \<le> x"
  shows "getpixel (gradient_overlay img) (x, y) = getpixel img (x, y)
       \<and> im_alpha (gradient_overlay img) = im_alpha img
       \<and> im_width (gradient_overlay img) = im_width img
       \<and> im_height (gradient_overlay img) = im_height img
       \<and> im_mode (gradient_overlay img) = im_mode img"
  using assms by (simp add: getpixel_def gradient_overlay_rgb gradient_overlay_frame)

theorem gradient_overlay_right_of_sensor_x_witness:
  "sensor_x \<le> 480
   \<and> getpixel (gradient_overlay (new_image ''RGB'' (width, height) (255, 255, 255))) (480, 7)
       = (255, 255, 255)"
  using gradient_overlay_right_of_sensor_x[of 480 "new_image ''RGB'' (width, height) (255, 255, 255)" 7]
  by (simp add: sensor_x_def width_def sensor_width_def getpixel_def new_image_def)


section \<open>Range of the blended channel\<close>

lemma scaled_div_between:
  fixes d a :: int
  assumes "0 \<le> a" "a \<le> 255"
  shows "min 0 d \<le> d * a div 255 \<and> d * a div 255 \<le> max 0 d"
proof (cases "0 \<le> d")
  case True
  have "0 \<le> d * a" using True assms by simp
  then have lo: "0 \<le> d * a div 255" by (simp add: pos_imp_zdiv_nonneg_iff)
  have "d * a \<le> d * 255" using True assms by (simp add: mult_left_mono)
  then have "d * a div 255 \<le> d * 255 div 255" by (rule zdiv_mono1) simp
  then show ?thesis using lo True by simp
next
  case False
  then have neg: "d \<le> 0" by simp
  have "d * a \<le> 0" using neg assms by (simp add: mult_nonpos_nonneg)
  then have "d * a div 255 \<le> 0 div 255" by (rule zdiv_mono1) simp
  then have hi: "d * a div 255 \<le> 0" by simp
  have "d * 255 \<le> d * a" using neg assms by (simp add: mult_left_mono_neg)
  then have "d * 255 div 255 \<le> d * a div 255" by (rule zdiv_mono1) simp
  then show ?thesis using hi neg by simp
qed

text \<open>
  Claim C10.  For a weight \<open>0 \<le> alpha \<le> 255\<close> the value
  \<^verbatim>\<open>current + (bg - current) * alpha // 255\<close> lies between the old channel value and the
  background channel value, both included.  For channel values in \<open>0..255\<close> it therefore lies
  in \<open>0..255\<close>: the upper clamp \<^verbatim>\<open>min(255, ...)\<close> does not change it, and without a lower
  clamp it is still not negative, so the byte that is stored is the computed value.
\<close>

theorem blend_channel_between:
  assumes "0 \<le> a" and "a \<le> 255"
  shows "min current bg \<le> current + (bg - current) * a div 255
       \<and> current + (bg - current) * a div 255 \<le> max current bg
       \<and> (0 \<le> current \<and> current \<le> 255 \<and> 0 \<le> bg \<and> bg \<le> 255 \<longrightarrow>
            0 \<le> current + (bg - current) * a div 255
          \<and> current + (bg - current) * a div 255 \<le> 255
          \<and> blend_channel current bg a = current + (bg - current) * a div 255
          \<and> clip8 (blend_channel current bg a) = current + (bg - current) * a div 255)"
  using scaled_div_between[OF assms, of "bg - current"]
  by (auto simp: blend_channel_def clip8_def)

theorem blend_channel_between_witness:
  "(0::int) \<le> 178 \<and> (178::int) \<le> 255
   \<and> min 200 15 \<le> (200::int) + (15 - 200) * 178 div 255
   \<and> (200::int) + (15 - 200) * 178 div 255 \<le> max 200 15
   \<and> blend_channel 200 15 178 = 70 \<and> clip8 (blend_channel 200 15 178) = 70"
  using blend_channel_between[of 178 200 15] by (simp add: clip8_def)


section \<open>Position of the accent bar\<close>

text \<open>
  Claim C2 says that the accent rectangle lies below the subtitle, that is, that its
  y-coordinates are greater than the y-coordinate of the subtitle strings.  In the script
  the rectangle spans the rows 190 to 193, and the first subtitle string is drawn at row
  210: the claim fails.
\<close>

theorem accent_bar_below_subtitle_counterexample:
  "Rectangle ((40, 190), (280, 193)) accent_color
      \<in> set (draw_ops DefaultFont DefaultFont DefaultFont)
   \<and> Text (40, 210) ''When Your Cheap Sensor'' accent_color DefaultFont
      \<in> set (draw_ops DefaultFont DefaultFont DefaultFont)
   \<and> \<not> ((210::int) < 190) \<and> \<not> ((210::int) < 193)"
  by (simp add: draw_ops_def line_y_def subtitle_y_def title_y_def)

text \<open>
  Claim C2, amended.  The script draws exactly one rectangle, 241 pixels wide and 4 pixels
  high, in the accent colour.  It lies above the subtitle text: its rows
  \<open>line_y = 190\<close> to \<open>line_y + 3 = 193\<close> are smaller than the row \<open>subtitle_y = 210\<close> of the
  first subtitle string (and than the row 245 of the second), and greater than the row 135
  at which the second title line is drawn.
\<close>

theorem accent_bar_above_subtitle:
  "filter is_Rectangle (draw_ops t s m) = [Rectangle ((40, line_y), (280, line_y + 3)) accent_color]
   \<and> draw_ops t s m ! 1 = Text (40, title_y + 55) title_text2 text_color t
   \<and> draw_ops t s m ! 2 = Text (40, subtitle_y) ''When Your Cheap Sensor'' accent_color s
   \<and> draw_ops t s m ! 3 = Text (40, subtitle_y + 35) ''Breaks Everything'' warning_color s
   \<and> line_y = 190 \<and> subtitle_y = 210
   \<and> title_y + 55 < line_y \<and> line_y + 3 < subtitle_y \<and> line_y + 3 < subtitle_y + 35"
  by (simp add: draw_ops_def line_y_def subtitle_y_def title_y_def)


section \<open>Font fallback\<close>

text \<open>
  Claim C7.  If loading \<^verbatim>\<open>arial.ttf\<close> fails at any of the sizes 48, 28 and 20, the
  \<^verbatim>\<open>try\<close>/\<^verbatim>\<open>except\<close> statement ends normally (no error leaves it) with all three of
  \<open>title_font\<close>, \<open>subtitle_font\<close> and \<open>small_font\<close> bound to the built-in default font, also
  those that had been assigned a TrueType font before the failure.
\<close>

theorem font_failure_gives_default_fonts:
  assumes "\<not> truetype_fonts wd ''arial.ttf'' 48 \<or> \<not> truetype_fonts wd ''arial.ttf'' 28
         \<or> \<not> truetype_fonts wd ''arial.ttf'' 20"
  shows "load_fonts wd v =
           Inr \<lparr>title_font = Some load_default, subtitle_font = Some load_default,
                small_font = Some load_default\<rparr>"
  using assms by (auto simp: load_fonts_def try_fonts_def truetype_def Let_def)

theorem font_failure_gives_default_fonts_witness:
  "truetype_fonts other_world ''arial.ttf'' 48
   \<and> \<not> truetype_fonts other_world ''arial.ttf'' 28
   \<and> title_font (fst (try_fonts other_world unbound)) = Some (FreeTypeFont ''arial.ttf'' 48)
   \<and> load_fonts other_world unbound =
       Inr \<lparr>title_font = Some DefaultFont, subtitle_font = Some DefaultFont,
            small_font = Some DefaultFont\<rparr>"
  using font_failure_gives_default_fonts[of other_world unbound]
  by (simp add: other_world_def try_fonts_def truetype_def load_default_def unbound_def)


section \<open>Pasting the asset\<close>








section \<open>Size of the output\<close>

lemma paste_frame:
  "im_mode (paste im src pos msk) = im_mode im"
  "im_width (paste im src pos msk) = im_width im"
  "im_height (paste im src pos msk) = im_height im"
  by (simp_all add: paste_def)

lemma draw_frame:
  "im_mode (draw g d img) = im_mode img"
  "im_width (draw g d img) = im_width img"
  "im_height (draw g d img) = im_height img"
  by (cases d; simp add: draw_text_def draw_rectangle_def split: prod.splits)+

lemma fold_draw_frame:
  "im_mode (fold (draw g) ds img) = im_mode img"
  "im_width (fold (draw g) ds img) = im_width img"
  "im_height (fold (draw g) ds img) = im_height img"
  by (induction ds arbitrary: img; simp add: draw_frame)+

lemma draw_all_frame:
  assumes "draw_all g v img = Inr img'"
  shows "im_width img' = im_width img \<and> im_height img' = im_height img \<and> im_mode img' = im_mode img"
  using assms by (auto simp: draw_all_def fold_draw_frame split: option.splits)

lemma render_size:
  assumes "render lib wd = Inr img"
  shows "im_width img = width \<and> im_height img = height \<and> im_mode img = ''RGB''"
proof -
  from assms obtain v sensor_img' where
    "draw_all (glyphs lib) v
       (gradient_overlay (paste_sensor (new_image ''RGB'' (width, height) bg_color) sensor_img')) = Inr img"
    by (simp add: render_def Let_def split: sum.splits)
  from draw_all_frame[OF this] show ?thesis
    by (simp add: gradient_overlay_frame paste_sensor_def paste_frame new_image_def)
qed

lemma str_width: "str width = ''1000''"
  by code_simp

lemma str_height: "str height = ''420''"
  by code_simp

lemma sensor_height_white_asset: "sensor_height white_asset = Inr 300"
  by code_simp

lemma render_sample:
  "render sample_library sample_world =
     Inr (fold (draw blank_glyphs) (draw_ops DefaultFont DefaultFont DefaultFont)
           (gradient_overlay (paste_sensor canvas
              \<lparr>im_mode = ''RGB'', im_width = 500, im_height = 300,
               im_rgb = im_rgb white_asset, im_alpha = im_alpha white_asset\<rparr>)))"
proof -
  have o: "open_image sample_world sensor_img_path = Inr white_asset"
    by (simp add: open_image_def sample_world_def)
  have r: "resize (lanczos sample_library) white_asset (sensor_width, 300) =
             Inr \<lparr>im_mode = ''RGB'', im_width = 500, im_height = 300,
                  im_rgb = im_rgb white_asset, im_alpha = im_alpha white_asset\<rparr>"
    by (simp add: resize_def c_int_def sample_library_def identity_filter_def sensor_width_def
        white_asset_def new_image_def)
  have l: "load_fonts sample_world unbound =
             Inr \<lparr>title_font = Some DefaultFont, subtitle_font = Some DefaultFont,
                  small_font = Some DefaultFont\<rparr>"
    by (simp add: load_fonts_def try_fonts_def truetype_def sample_world_def load_default_def
        unbound_def)
  have g: "glyphs sample_library = blank_glyphs"
    by (simp add: sample_library_def)
  show ?thesis
    by (simp add: render_def o sensor_height_white_asset r l g draw_all_def canvas_def)
qed

text \<open>
  Claim C5.  Whatever the asset is, a run that writes an image writes one of width 1000 and
  height 420; the second line it prints names these dimensions.
\<close>

theorem output_is_1000_by_420:
  assumes "generate_hero lib wd = Inr out"
  shows "im_width (snd (saved out)) = 1000 \<and> im_height (snd (saved out)) = 420
       \<and> fst (saved out) = output_path
       \<and> stdout out ! 1 = ''Dimensions: 1000x420''"
proof -
  from assms obtain img where r: "render lib wd = Inr img"
    and out: "out = \<lparr>saved = (output_path, img),
                     stdout = [''Hero image created: '' @ output_path,
                               ''Dimensions: '' @ str width @ ''x'' @ str height]\<rparr>"
    by (auto simp: generate_hero_def split: sum.splits if_splits)
  from render_size[OF r] have "im_width img = 1000" "im_height img = 420"
    by (simp_all add: width_def height_def)
  then show ?thesis
    by (simp add: out str_width str_height)
qed

theorem output_is_1000_by_420_witness:
  "\<exists>out. generate_hero sample_library sample_world = Inr out
     \<and> im_width (snd (saved out)) = 1000 \<and> im_height (snd (saved out)) = 420
     \<and> stdout out ! 1 = ''Dimensions: 1000x420''"
proof -
  have "writable sample_world output_path"
    by (simp add: sample_world_def)
  then obtain out where out: "generate_hero sample_library sample_world = Inr out"
    by (simp add: generate_hero_def render_sample)
  from output_is_1000_by_420[OF out] out show ?thesis by blast
qed


section \<open>Rounding error of binary64 arithmetic\<close>

text \<open>
  One rounding changes a value by at most the fraction \<open>2\<^sup>-\<^sup>5\<^sup>3\<close> of its magnitude.
\<close>

lemma bit_length_bounds:
  "0 < n \<Longrightarrow> 2 ^ (bit_length n - 1) \<le> n \<and> n < 2 ^ bit_length n"
proof (induction n rule: bit_length.induct)
  case (1 n)
  show ?case
  proof (cases "n = 1")
    case True
    then show ?thesis by (simp add: bit_length.simps)
  next
    case False
    with 1 have pos: "0 < n div 2" by simp
    from 1 pos have IH: "2 ^ (bit_length (n div 2) - 1) \<le> n div 2 \<and> n div 2 < 2 ^ bit_length (n div 2)"
      by simp
    have bl: "bit_length n = Suc (bit_length (n div 2))"
      using 1(2) by (subst bit_length.simps) simp
    have gt: "0 < bit_length (n div 2)"
      using pos by (subst bit_length.simps) simp
    then obtain k where k: "bit_length (n div 2) = Suc k"
      by (cases "bit_length (n div 2)") auto
    from IH k have "2 ^ k \<le> n div 2" "n div 2 < 2 * 2 ^ k" by simp_all
    then have "2 * 2 ^ k \<le> n" "n < 2 * (2 * 2 ^ k)" by linarith+
    then show ?thesis by (simp add: bl k)
  qed
qed

lemma round_half_even_error: "\<bar>of_int (round_half_even m) - m\<bar> \<le> 1 / 2"
proof -
  have "of_int \<lfloor>m\<rfloor> \<le> m" "m < of_int \<lfloor>m\<rfloor> + 1" by linarith+
  then show ?thesis by (auto simp: round_half_even_def Let_def)
qed

lemma ilog2_bounds:
  assumes "0 < a"
  shows "2 powi (ilog2 a) \<le> a \<and> a < 2 powi (ilog2 a + 1)"
proof -
  obtain p d where pd: "quotient_of a = (p, d)" by (cases "quotient_of a")
  then have d: "0 < d" and a: "a = of_int p / of_int d"
    using quotient_of_denom_pos quotient_of_div by blast+
  with assms have p: "0 < p" by (simp add: zero_less_divide_iff)
  define bp where "bp = bit_length p"
  define bd where "bd = bit_length d"
  from bit_length_bounds[OF p] have P: "2 ^ (bp - 1) \<le> p" "p < 2 ^ bp" by (simp_all add: bp_def)
  from bit_length_bounds[OF d] have D: "2 ^ (bd - 1) \<le> d" "d < 2 ^ bd" by (simp_all add: bd_def)
  have bp1: "1 \<le> bp" using p unfolding bp_def by (subst bit_length.simps) simp
  have bd1: "1 \<le> bd" using d unfolding bd_def by (subst bit_length.simps) simp
  define k where "k = int bp - int bd"
  have Pr: "(2::rat) ^ (bp - 1) \<le> of_int p" "of_int p < (2::rat) ^ bp"
    using P by (metis of_int_le_iff of_int_numeral of_int_power, metis of_int_less_iff of_int_numeral of_int_power)
  have Dr: "(2::rat) ^ (bd - 1) \<le> of_int d" "of_int d < (2::rat) ^ bd"
    using D by (metis of_int_le_iff of_int_numeral of_int_power, metis of_int_less_iff of_int_numeral of_int_power)
  have dpos: "(0::rat) < of_int d" using d by simp
  have up: "a < 2 powi (k + 1)"
  proof -
    have "of_int p < (2::rat) ^ bp" by (rule Pr)
    also have "(2::rat) ^ bp = 2 powi (k + 1) * 2 ^ (bd - 1)"
    proof -
      have "(2::rat) powi (k + 1) * 2 ^ (bd - 1) = 2 powi (k + 1) * 2 powi (int (bd - 1))" by simp
      also have "\<dots> = 2 powi (k + 1 + int (bd - 1))" by (simp add: power_int_add)
      also have "k + 1 + int (bd - 1) = int bp" using bd1 by (simp add: k_def)
      finally show ?thesis by simp
    qed
    also have "\<dots> \<le> 2 powi (k + 1) * of_int d"
      using Dr(1) by (simp add: mult_left_mono)
    finally show ?thesis using dpos by (simp add: a pos_divide_less_eq)
  qed
  have lo: "2 powi (k - 1) \<le> a"
  proof -
    have "(2::rat) powi (k - 1) * of_int d \<le> 2 powi (k - 1) * 2 ^ bd"
      using Dr(2) by (simp add: mult_left_mono)
    also have "\<dots> = 2 ^ (bp - 1)"
    proof -
      have "(2::rat) powi (k - 1) * 2 ^ bd = 2 powi (k - 1) * 2 powi (int bd)" by simp
      also have "\<dots> = 2 powi (k - 1 + int bd)" by (simp add: power_int_add)
      also have "k - 1 + int bd = int (bp - 1)" using bp1 by (simp add: k_def)
      finally show ?thesis by simp
    qed
    also have "\<dots> \<le> of_int p" by (rule Pr)
    finally show ?thesis using dpos by (simp add: a pos_le_divide_eq)
  qed
  have il: "ilog2 a = (if 2 powi k \<le> a then k else k - 1)"
    by (simp add: ilog2_def pd k_def bp_def bd_def Let_def)
  show ?thesis
  proof (cases "2 powi k \<le> a")
    case True
    then show ?thesis using up by (simp add: il)
  next
    case False
    then show ?thesis using lo by (simp add: il)
  qed
qed

lemma binary64_error: "\<bar>binary64 q - q\<bar> \<le> \<bar>q\<bar> / 2 ^ 53"
proof (cases "q = 0")
  case True
  then show ?thesis by (simp add: binary64_def)
next
  case False
  define a where "a = \<bar>q\<bar>"
  define s :: rat where "s = 2 powi (ilog2 a - 52)"
  define n where "n = round_half_even (a / s)"
  have apos: "0 < a" using False by (simp add: a_def)
  have spos: "0 < s" by (simp add: s_def)
  have q: "q = sgn q * a" using sgn_mult_abs[of q] by (simp only: a_def)
  have "binary64 q = sgn q * (of_int n * s)"
    using False by (simp add: binary64_def Let_def a_def s_def n_def mult.assoc)
  then have "binary64 q - q = sgn q * (of_int n * s - a)"
    using q by (metis right_diff_distrib)
  then have "\<bar>binary64 q - q\<bar> = \<bar>of_int n * s - a\<bar>"
    using False by (simp add: abs_mult abs_sgn_eq)
  also have "of_int n * s - a = (of_int n - a / s) * s"
    using spos by (simp add: left_diff_distrib)
  also have "\<bar>(of_int n - a / s) * s\<bar> = \<bar>of_int n - a / s\<bar> * s"
    using spos by (simp add: abs_mult)
  also have "\<dots> \<le> (1 / 2) * s"
    using round_half_even_error[of "a / s"] spos unfolding n_def by (intro mult_right_mono) simp_all
  also have "(1 / 2) * s = 2 powi (ilog2 a) / 2 ^ 53"
  proof -
    have "s = 2 powi (ilog2 a) * 2 powi (- 52)"
      unfolding s_def by (simp add: power_int_diff power_int_minus field_simps)
    then show ?thesis by (simp add: power_int_minus field_simps)
  qed
  also have "\<dots> \<le> a / 2 ^ 53"
    using ilog2_bounds[OF apos] by (simp add: divide_right_mono)
  finally show ?thesis by (simp add: a_def)
qed

lemma binary64_error_bound:
  assumes "\<bar>q\<bar> \<le> b"
  shows "binary64 q - q \<le> b / 2 ^ 53" and "q - binary64 q \<le> b / 2 ^ 53"
proof -
  have "\<bar>q\<bar> / 2 ^ 53 \<le> b / 2 ^ 53" using assms by (simp add: divide_right_mono)
  with binary64_error[of q] have "\<bar>binary64 q - q\<bar> \<le> b / 2 ^ 53" by linarith
  then show "binary64 q - q \<le> b / 2 ^ 53" and "q - binary64 q \<le> b / 2 ^ 53" by linarith+
qed

section \<open>The blend weight of the gradient overlay\<close>

lemma alpha_0: "alpha 0 = 255" by code_simp

lemma alpha_320: "alpha 320 = 204" by code_simp

lemma binary64_three_tenths: "binary64 (3 / 10) = 5404319552844595 / 18014398509481984"
  by code_simp

lemma float_of_int_1: "float_of_int 1 = 1" by code_simp

lemma float_of_int_255: "float_of_int 255 = 255" by code_simp

lemma alpha_float_error:
  assumes "0 \<le> x" and "x < 480"
  shows "\<bar>alpha_float x - (255 - 51 * of_int x / 320)\<bar> \<le> 1 / 2 ^ 42"
proof -
  define r :: rat where "r = of_int x / 480"
  have r: "0 \<le> r" "r \<le> 1" using assms by (simp_all add: r_def)
  define t1 where "t1 = binary64 r"
  have t1: "t1 - r \<le> 1 / 2 ^ 53" "r - t1 \<le> 1 / 2 ^ 53"
    using binary64_error_bound[of r 1] r by (simp_all add: t1_def)
  define p where "p = t1 * (5404319552844595 / 18014398509481984)"
  have p: "p - 3 / 10 * r \<le> 1 / 2 ^ 53" "3 / 10 * r - p \<le> 1 / 2 ^ 53"
    using t1 r unfolding p_def by simp_all
  have pb: "\<bar>p\<bar> \<le> 1" using p r by simp
  define t2 where "t2 = binary64 p"
  have t2: "t2 - p \<le> 1 / 2 ^ 53" "p - t2 \<le> 1 / 2 ^ 53"
    using binary64_error_bound[OF pb] by (simp_all add: t2_def)
  have sb: "\<bar>1 - t2\<bar> \<le> 2" using t2 p r by simp
  define t3 where "t3 = binary64 (1 - t2)"
  have t3: "t3 - (1 - t2) \<le> 2 / 2 ^ 53" "(1 - t2) - t3 \<le> 2 / 2 ^ 53"
    using binary64_error_bound[OF sb] by (simp_all add: t3_def)
  have mb: "\<bar>255 * t3\<bar> \<le> 1024" using t3 t2 p r by simp
  define v where "v = binary64 (255 * t3)"
  have v: "v - 255 * t3 \<le> 1024 / 2 ^ 53" "255 * t3 - v \<le> 1024 / 2 ^ 53"
    using binary64_error_bound[OF mb] by (simp_all add: v_def)
  have av: "alpha_float x = v"
    by (simp add: alpha_float_def v_def t3_def t2_def p_def t1_def r_def fmul_def fsub_def
        int_truediv_def float_of_int_1 float_of_int_255 binary64_three_tenths sensor_x_def
        width_def sensor_width_def)
  have E: "255 - 51 * of_int x / 320 = 255 * (1 - 3 / 10 * r)"
    by (simp add: r_def)
  have "v - 255 * (1 - 3 / 10 * r) \<le> 1 / 2 ^ 42" "255 * (1 - 3 / 10 * r) - v \<le> 1 / 2 ^ 42"
    using v t3 t2 p by simp_all
  then show ?thesis
    unfolding av E abs_le_iff by simp
qed

lemma alpha_float_nonneg:
  assumes "0 \<le> x" and "x < 480"
  shows "0 \<le> alpha_float x"
proof -
  have "(0::rat) \<le> 255 - 51 * of_int x / 320 - 1" using assms by simp
  with alpha_float_error[OF assms] show ?thesis
    unfolding abs_le_iff by simp
qed

lemma floor_near:
  fixes v :: rat and N d :: int
  assumes "0 < d" and "\<bar>v - of_int N / of_int d\<bar> < 1 / of_int d" and "N mod d \<noteq> 0"
  shows "\<lfloor>v\<rfloor> = N div d"
proof -
  define n where "n = N div d"
  define m where "m = N mod d"
  have N: "N = n * d + m" by (simp add: n_def m_def)
  have m: "1 \<le> m" "m \<le> d - 1"
    using assms(1,3) pos_mod_sign[of d N] pos_mod_bound[of d N] unfolding m_def by linarith+
  have dr: "(0::rat) < of_int d" using assms(1) by simp
  have E: "(of_int N :: rat) / of_int d = of_int n + of_int m / of_int d"
    using dr by (simp add: N field_simps)
  have m1: "(1::rat) / of_int d \<le> of_int m / of_int d"
    using m(1) dr by (simp add: divide_right_mono)
  have m2: "(of_int m :: rat) / of_int d \<le> 1 - 1 / of_int d"
  proof -
    have "(of_int m :: rat) \<le> of_int d - 1" using m(2) by (metis of_int_1 of_int_diff of_int_le_iff)
    then have "(of_int m :: rat) / of_int d \<le> (of_int d - 1) / of_int d"
      using dr by (simp add: divide_right_mono)
    also have "\<dots> = 1 - 1 / of_int d" using dr by (simp add: field_simps)
    finally show ?thesis .
  qed
  have "of_int n \<le> v" "v < of_int n + 1"
    using assms(2) m1 m2 unfolding E abs_less_iff by linarith+
  then show ?thesis unfolding n_def[symmetric] by linarith
qed

lemma alpha_closed_form:
  assumes "0 \<le> x" and "x < sensor_x"
  shows "alpha x = (81600 - 51 * x) div 320"
proof -
  have x: "x < 480" using assms(2) by (simp add: sensor_x_def width_def sensor_width_def)
  have a: "alpha x = \<lfloor>alpha_float x\<rfloor>"
    using alpha_float_nonneg[OF assms(1) x] by (simp add: alpha_def py_int_def)
  show ?thesis
  proof (cases "(81600 - 51 * x) mod 320 = 0")
    case False
    have E: "255 - 51 * of_int x / 320 = (of_int (81600 - 51 * x) :: rat) / of_int 320"
      by simp
    have "\<bar>alpha_float x - of_int (81600 - 51 * x) / of_int 320\<bar> < 1 / of_int 320"
      using alpha_float_error[OF assms(1) x] unfolding E by simp
    from floor_near[OF _ this False] show ?thesis by (simp add: a)
  next
    case True
    then have "320 dvd 81600 - 51 * x" by (simp add: dvd_eq_mod_eq_0)
    moreover have "(320::int) dvd 81600" by simp
    ultimately have "320 dvd 81600 - (81600 - 51 * x)" by (rule dvd_diff[rotated])
    then have "320 dvd 51 * x" by simp
    then have a: "320 dvd 251 * (51 * x)" by (rule dvd_mult)
    have b: "(320::int) dvd 320 * (40 * x)" by simp
    have "251 * (51 * x) - 320 * (40 * x) = x" by simp
    with dvd_diff[OF a b] have "320 dvd x" by simp
    then obtain k where k: "x = 320 * k" by (auto simp: dvd_def)
    with assms(1) x have "0 \<le> k" "k < 2" by linarith+
    then have "k = 0 \<or> k = 1" by linarith
    with k have "x = 0 \<or> x = 320" by auto
    then show ?thesis using alpha_0 alpha_320 by auto
  qed
qed


lemma alpha_479: "alpha 479 = 178" by code_simp

lemma alpha_range:
  assumes "0 \<le> x" and "x < sensor_x"
  shows "178 \<le> alpha x \<and> alpha x \<le> 255"
proof -
  have "x < 480" using assms(2) by (simp add: sensor_x_def width_def sensor_width_def)
  with assms(1) show ?thesis unfolding alpha_closed_form[OF assms] by linarith
qed

lemma alpha_antimono:
  assumes "0 \<le> x" and "x \<le> x'" and "x' < sensor_x"
  shows "alpha x' \<le> alpha x"
proof -
  have "alpha x = (81600 - 51 * x) div 320" using assms by (intro alpha_closed_form) simp_all
  moreover have "alpha x' = (81600 - 51 * x') div 320" using assms by (intro alpha_closed_form) simp_all
  moreover have "(81600 - 51 * x') div 320 \<le> (81600 - 51 * x) div 320"
    using assms(2) by (intro zdiv_mono1) simp_all
  ultimately show ?thesis by simp
qed

lemma alpha_exact:
  assumes "0 \<le> x" and "x < sensor_x"
  shows "alpha x = \<lfloor>255 * (1 - 3 / 10 * (of_int x / of_int sensor_x :: rat))\<rfloor>"
proof -
  have "255 * (1 - 3 / 10 * (of_int x / of_int sensor_x :: rat))
          = of_int (81600 - 51 * x) / of_int 320"
    by (simp add: sensor_x_def width_def sensor_width_def)
  then show ?thesis
    unfolding alpha_closed_form[OF assms] by (simp only: floor_divide_of_int_eq)
qed

lemma overlay_pixel_full: "clip_rgb (overlay_pixel 255 c) = bg_color"
  by (cases c) (simp add: overlay_pixel_def blend_channel_def bg_color_def clip_rgb_def clip8_def)

text \<open>
  Claim C1 says that the blend weight toward the background colour is 0.3 at \<open>x = 0\<close> (the
  pixel moves 30% of the way) and falls to zero at the left edge of the asset.  In the
  script the weight is \<open>alpha / 255\<close> with \<open>alpha = 255\<close> at \<open>x = 0\<close>: the pixel is replaced by
  the background colour, whatever it was; and in the last column \<open>x = sensor_x - 1\<close> the
  weight is still \<open>178 / 255\<close>.
\<close>

theorem gradient_weight_counterexample:
  "alpha 0 = 255
   \<and> (of_int (alpha 0) / 255 :: rat) \<noteq> 3 / 10
   \<and> overlay_pixel (alpha 0) (200, 200, 200) = bg_color
   \<and> alpha (sensor_x - 1) = 178"
  using alpha_0 alpha_479
  by (simp add: overlay_pixel_def blend_channel_def bg_color_def sensor_x_def width_def
      sensor_width_def)

text \<open>
  Claim C1, amended.  For every pixel \<open>(x, y)\<close> with \<open>0 \<le> x < sensor_x\<close> and \<open>0 \<le> y < height\<close>
  the overlay moves each channel toward the background colour with the weight
  \<open>alpha x / 255\<close>, where \<open>alpha x\<close> is \<open>255 * (1 - 0.3 * x / sensor_x)\<close> truncated to an
  integer (the binary64 evaluation of the script gives the same integer as exact
  arithmetic).  The weight decreases linearly in \<open>x\<close>, up to this truncation, from its maximum
  \<open>255 / 255 = 1\<close> at \<open>x = 0\<close>, where the pixel becomes exactly the background colour, and
  stays at or above \<open>178 / 255\<close>, about 0.7; it does not reach zero.
\<close>

theorem gradient_weight_profile:
  assumes "0 \<le> x" and "x < sensor_x" and "0 \<le> y" and "y < height"
  shows "getpixel (gradient_overlay img) (x, y)
           = clip_rgb (overlay_pixel (alpha x) (getpixel img (x, y)))
       \<and> alpha x = \<lfloor>255 * (1 - 3 / 10 * (of_int x / of_int sensor_x :: rat))\<rfloor>
       \<and> 178 \<le> alpha x \<and> alpha x \<le> 255
       \<and> (\<forall>x'. x \<le> x' \<and> x' < sensor_x \<longrightarrow> alpha x' \<le> alpha x)
       \<and> (x = 0 \<longrightarrow> alpha x = 255 \<and> getpixel (gradient_overlay img) (x, y) = bg_color)"
proof -
  have px: "getpixel (gradient_overlay img) (x, y)
              = clip_rgb (overlay_pixel (alpha x) (getpixel img (x, y)))"
    using assms by (simp add: getpixel_def gradient_overlay_rgb)
  have z: "x = 0 \<longrightarrow> alpha x = 255 \<and> getpixel (gradient_overlay img) (x, y) = bg_color"
    using px alpha_0 by (auto simp: overlay_pixel_full)
  show ?thesis
    using px alpha_exact[OF assms(1,2)] alpha_range[OF assms(1,2)] alpha_antimono[OF assms(1)] z
    by blast
qed

theorem gradient_weight_profile_witness:
  "(0::int) \<le> 0 \<and> 0 < sensor_x \<and> 0 < height \<and> 479 < sensor_x
   \<and> alpha 0 = 255
   \<and> getpixel (gradient_overlay (new_image ''RGB'' (width, height) (255, 255, 255))) (0, 0) = bg_color
   \<and> alpha 479 = 178
   \<and> getpixel (gradient_overlay (new_image ''RGB'' (width, height) (255, 255, 255))) (479, 0)
       = (87, 93, 106)"
proof -
  have s: "0 < sensor_x" "479 < sensor_x" "0 < height"
    by (simp_all add: sensor_x_def width_def sensor_width_def height_def)
  from gradient_weight_profile[of 0 0 "new_image ''RGB'' (width, height) (255, 255, 255)"] s
  have a: "alpha 0 = 255"
    "getpixel (gradient_overlay (new_image ''RGB'' (width, height) (255, 255, 255))) (0, 0) = bg_color"
    by (simp_all add: overlay_pixel_full)
  from gradient_weight_profile[of 479 0 "new_image ''RGB'' (width, height) (255, 255, 255)"] s
  have "getpixel (gradient_overlay (new_image ''RGB'' (width, height) (255, 255, 255))) (479, 0)
          = clip_rgb (overlay_pixel (alpha 479) (255, 255, 255))"
    by (simp add: getpixel_def new_image_def)
  then have b: "getpixel (gradient_overlay (new_image ''RGB'' (width, height) (255, 255, 255))) (479, 0)
          = (87, 93, 106)"
    by (simp add: alpha_479 overlay_pixel_def blend_channel_def bg_color_def clip_rgb_def clip8_def)
  show ?thesis using s a b alpha_479 by simp
qed

text \<open>
  Claim C6.  The weight at the leftmost column \<open>x = 0\<close> is strictly greater than the weight
  at the column \<open>x = sensor_x - 1\<close> immediately left of the pasted asset: 255 against 178.
\<close>

theorem weight_left_exceeds_weight_at_asset_edge:
  "alpha 0 = 255 \<and> alpha (sensor_x - 1) = 178 \<and> alpha (sensor_x - 1) < alpha 0"
  using alpha_0 alpha_479 by (simp add: sensor_x_def width_def sensor_width_def)


section \<open>Height of the resized asset\<close>

lemma binary64_rel: "\<exists>e. \<bar>e\<bar> \<le> 1 / 2 ^ 53 \<and> binary64 q = q * (1 + e)"
proof (cases "q = 0")
  case True
  then show ?thesis by (intro exI[of _ 0]) (simp add: binary64_def)
next
  case False
  define e where "e = (binary64 q - q) / q"
  have "\<bar>e\<bar> = \<bar>binary64 q - q\<bar> / \<bar>q\<bar>" by (simp add: e_def)
  also have "\<dots> \<le> (\<bar>q\<bar> / 2 ^ 53) / \<bar>q\<bar>"
    using binary64_error[of q] by (intro divide_right_mono) simp_all
  also have "\<dots> = 1 / 2 ^ 53" using False by simp
  finally have "\<bar>e\<bar> \<le> 1 / 2 ^ 53" .
  moreover have "binary64 q = q * (1 + e)" using False by (simp add: e_def field_simps)
  ultimately show ?thesis by blast
qed

lemma binary64_nonneg:
  assumes "0 \<le> q"
  shows "0 \<le> binary64 q"
proof -
  obtain e where e: "\<bar>e\<bar> \<le> 1 / 2 ^ 53" "binary64 q = q * (1 + e)"
    using binary64_rel by blast
  have "0 \<le> 1 + e" using e(1) by simp
  with assms show ?thesis unfolding e(2) by simp
qed

lemma three_roundings:
  fixes a b c u :: rat
  assumes "\<bar>a\<bar> \<le> u" and "\<bar>b\<bar> \<le> u" and "\<bar>c\<bar> \<le> u" and "u \<le> 1 / 4"
  shows "\<bar>(1 + a) * (1 + b) * (1 + c) - 1\<bar> \<le> 4 * u"
proof -
  have u0: "0 \<le> u" using assms(1) by linarith
  have ab: "\<bar>a * b\<bar> \<le> u * u" unfolding abs_mult using assms(1,2) by (intro mult_mono) simp_all
  have ac: "\<bar>a * c\<bar> \<le> u * u" unfolding abs_mult using assms(1,3) by (intro mult_mono) simp_all
  have bc: "\<bar>b * c\<bar> \<le> u * u" unfolding abs_mult using assms(2,3) by (intro mult_mono) simp_all
  have abc: "\<bar>a * b * c\<bar> \<le> u * u * u"
  proof -
    have "\<bar>a * b * c\<bar> = \<bar>a * b\<bar> * \<bar>c\<bar>" by (simp add: abs_mult)
    also have "\<dots> \<le> (u * u) * u" using ab assms(3) u0 by (intro mult_mono) simp_all
    finally show ?thesis .
  qed
  have uu: "u * u \<le> u / 4" using mult_left_mono[OF assms(4) u0] by simp
  have uuu: "u * u * u \<le> u / 16"
  proof -
    have "u * u * u \<le> (u / 4) * u" using uu u0 by (intro mult_right_mono) simp_all
    also have "\<dots> = (u * u) / 4" by simp
    also have "\<dots> \<le> (u / 4) / 4" using uu by (intro divide_right_mono) simp_all
    finally show ?thesis by simp
  qed
  have e: "(1 + a) * (1 + b) * (1 + c) - 1 = a + b + c + a * b + a * c + b * c + a * b * c"
    by (simp add: algebra_simps)
  have "a + b + c + a * b + a * c + b * c + a * b * c \<le> 4 * u"
    "- (4 * u) \<le> a + b + c + a * b + a * c + b * c + a * b * c"
    using assms(1-3) ab ac bc abc uu uuu unfolding abs_le_iff by linarith+
  then show ?thesis unfolding e abs_le_iff by linarith
qed

lemma height_float_error:
  assumes "0 < w" and "0 \<le> h" and "h \<le> 2 ^ 42"
  shows "\<bar>height_float h w - of_int (500 * h) / of_int w\<bar> < 1 / of_int w"
    and "0 \<le> height_float h w"
proof -
  define E :: rat where "E = of_int (500 * h) / of_int w"
  have wr: "(0::rat) < of_int w" using assms(1) by simp
  have E0: "0 \<le> E" using assms(1,2) by (simp add: E_def)
  obtain a where a: "\<bar>a\<bar> \<le> 1 / 2 ^ 53" "binary64 (of_int h) = of_int h * (1 + a)"
    using binary64_rel by blast
  obtain b where b: "\<bar>b\<bar> \<le> 1 / 2 ^ 53" "binary64 (500 / of_int w) = 500 / of_int w * (1 + b)"
    using binary64_rel by blast
  obtain c where c: "\<bar>c\<bar> \<le> 1 / 2 ^ 53"
    "binary64 (of_int h * (1 + a) * (500 / of_int w * (1 + b)))
       = of_int h * (1 + a) * (500 / of_int w * (1 + b)) * (1 + c)"
    using binary64_rel by blast
  have v0: "height_float h w = binary64 (binary64 (of_int h) * binary64 (500 / of_int w))"
    by (simp add: height_float_def fmul_def float_of_int_def int_truediv_def sensor_width_def)
  have v: "height_float h w = E * ((1 + a) * (1 + b) * (1 + c))"
    unfolding v0 a(2) b(2) c(2) E_def by simp
  have r: "\<bar>(1 + a) * (1 + b) * (1 + c) - 1\<bar> \<le> 4 * (1 / 2 ^ 53)"
    using a(1) b(1) c(1) by (intro three_roundings) simp_all
  have "height_float h w - E = E * ((1 + a) * (1 + b) * (1 + c) - 1)"
    by (simp add: v algebra_simps)
  then have "\<bar>height_float h w - E\<bar> = E * \<bar>(1 + a) * (1 + b) * (1 + c) - 1\<bar>"
    using E0 by (simp add: abs_mult)
  also have "\<dots> \<le> E * (4 * (1 / 2 ^ 53))"
    using r E0 by (intro mult_left_mono) simp_all
  also have "\<dots> = (of_int (2000 * h) / 2 ^ 53) / of_int w"
    by (simp add: E_def)
  also have "\<dots> < 1 / of_int w"
  proof -
    have "2000 * h < (2 ^ 53 :: int)" using assms(3) by simp
    then have "(of_int (2000 * h) :: rat) < of_int (2 ^ 53)" by (simp only: of_int_less_iff)
    then have lt: "(of_int (2000 * h) :: rat) / 2 ^ 53 < 1" by simp
    show ?thesis by (rule divide_strict_right_mono[OF lt wr])
  qed
  finally show "\<bar>height_float h w - of_int (500 * h) / of_int w\<bar> < 1 / of_int w"
    by (simp add: E_def)
  have "0 \<le> (1 + a) * (1 + b) * (1 + c)"
    using a(1) b(1) c(1) by (intro mult_nonneg_nonneg) simp_all
  then show "0 \<le> height_float h w" unfolding v using E0 by simp
qed

subsection \<open>Truncation of the height\<close>

text \<open>
  An integer below \<open>2\<^sup>5\<^sup>3\<close> converts to a float without rounding, so the height is the
  result of two roundings, of the quotient and of the product, and lies within
  \<open>1 / (2 * w)\<close> of \<open>500 * h / w\<close>.
\<close>

lemma round_half_even_of_int: "round_half_even (of_int m) = m"
  by (simp add: round_half_even_def)

lemma round_half_even_near:
  assumes "of_int k - 1 / 2 < v" and "v < of_int k + 1 / 2"
  shows "round_half_even v = k"
proof (cases "of_int k \<le> v")
  case True
  with assms(2) have "\<lfloor>v\<rfloor> = k" by (intro floor_unique) simp_all
  then show ?thesis using assms(2) by (simp add: round_half_even_def Let_def)
next
  case False
  then have "of_int (k - 1) \<le> v" "v < of_int (k - 1) + 1" using assms(1) by simp_all
  then have "\<lfloor>v\<rfloor> = k - 1" by (rule floor_unique)
  then show ?thesis using assms(1) by (simp add: round_half_even_def Let_def)
qed

lemma binary64_of_int_exact:
  assumes "0 \<le> h" and "h < 2 ^ 53"
  shows "binary64 (of_int h) = of_int h"
proof (cases "h = 0")
  case True
  then show ?thesis by (simp add: binary64_def)
next
  case False
  define a :: rat where "a = of_int h"
  have hpos: "0 < h" using assms(1) False by simp
  have apos: "0 < a" using hpos by (simp add: a_def)
  define e where "e = ilog2 a"
  have "(of_int h :: rat) < of_int (2 ^ 53)" using assms(2) by (simp only: of_int_less_iff)
  then have a53: "a < 2 powi 53" by (simp add: a_def)
  have "2 powi e \<le> a" using ilog2_bounds[OF apos] by (simp add: e_def)
  with a53 have "(2::rat) powi e < 2 powi 53" by linarith
  then have "e < 53" by (rule power_int_le_imp_less_exp[rotated]) simp_all
  define k where "k = nat (52 - e)"
  have ek: "e - 52 = - int k" using \<open>e < 53\<close> by (simp add: k_def)
  have s: "(2::rat) powi (e - 52) = 1 / 2 ^ k"
    unfolding ek by (simp add: power_int_minus_divide)
  have "a * 2 ^ k = of_int (h * 2 ^ k)"
    by (simp add: a_def)
  then have r: "round_half_even (a * 2 ^ k) = h * 2 ^ k"
    by (simp only: round_half_even_of_int)
  have "binary64 (of_int h) = sgn a * of_int (round_half_even (a / (2 powi (e - 52)))) * 2 powi (e - 52)"
    using apos by (simp add: binary64_def Let_def a_def e_def)
  also have "\<dots> = of_int (h * 2 ^ k) * (1 / 2 ^ k)"
    unfolding s using apos by (simp add: r)
  also have "\<dots> = of_int h" by simp
  finally show ?thesis .
qed

lemma two_roundings:
  fixes b c u :: rat
  assumes "\<bar>b\<bar> \<le> u" and "\<bar>c\<bar> \<le> u" and "u \<le> 1 / 100"
  shows "\<bar>(1 + b) * (1 + c) - 1\<bar> \<le> 201 / 100 * u"
proof -
  have u0: "0 \<le> u" using assms(1) by linarith
  have bc: "\<bar>b * c\<bar> \<le> u * u" unfolding abs_mult using assms(1,2) by (intro mult_mono) simp_all
  have uu: "u * u \<le> u / 100" using mult_left_mono[OF assms(3) u0] by simp
  have e: "(1 + b) * (1 + c) - 1 = b + c + b * c" by (simp add: algebra_simps)
  have "b + c + b * c \<le> 201 / 100 * u" "- (201 / 100 * u) \<le> b + c + b * c"
    using assms(1,2) bc uu unfolding abs_le_iff by linarith+
  then show ?thesis unfolding e abs_le_iff by linarith
qed

lemma height_float_error_half:
  assumes "0 < w" and "0 \<le> h" and "h \<le> 2 ^ 42"
  shows "\<bar>height_float h w - of_int (500 * h) / of_int w\<bar> < 1 / (2 * of_int w)"
proof -
  define E :: rat where "E = of_int (500 * h) / of_int w"
  have wr: "(0::rat) < of_int w" using assms(1) by simp
  have E0: "0 \<le> E" using assms(1,2) by (simp add: E_def)
  have "h < 2 ^ 53" using assms(3) by simp
  from binary64_of_int_exact[OF assms(2) this]
  have hx: "float_of_int h = of_int h" by (simp add: float_of_int_def)
  obtain b where b: "\<bar>b\<bar> \<le> 1 / 2 ^ 53" "binary64 (500 / of_int w) = 500 / of_int w * (1 + b)"
    using binary64_rel by blast
  obtain c where c: "\<bar>c\<bar> \<le> 1 / 2 ^ 53"
    "binary64 (of_int h * (500 / of_int w * (1 + b)))
       = of_int h * (500 / of_int w * (1 + b)) * (1 + c)"
    using binary64_rel by blast
  have v0: "height_float h w = binary64 (of_int h * binary64 (500 / of_int w))"
    by (simp add: height_float_def fmul_def hx int_truediv_def sensor_width_def)
  have v: "height_float h w = E * ((1 + b) * (1 + c))"
    unfolding v0 b(2) c(2) E_def by simp
  have r: "\<bar>(1 + b) * (1 + c) - 1\<bar> \<le> 201 / 100 * (1 / 2 ^ 53)"
    using b(1) c(1) by (intro two_roundings) simp_all
  have "height_float h w - E = E * ((1 + b) * (1 + c) - 1)"
    by (simp add: v algebra_simps)
  then have "\<bar>height_float h w - E\<bar> = E * \<bar>(1 + b) * (1 + c) - 1\<bar>"
    using E0 by (simp add: abs_mult)
  also have "\<dots> \<le> E * (201 / 100 * (1 / 2 ^ 53))"
    using r E0 by (intro mult_left_mono) simp_all
  also have "\<dots> = (of_int (1005 * h) / 2 ^ 53) / of_int w"
    by (simp add: E_def)
  also have "\<dots> < (1 / 2) / of_int w"
  proof -
    have "2 * (1005 * h) < (2 ^ 53 :: int)" using assms(3) by simp
    then have "(of_int (2 * (1005 * h)) :: rat) < of_int (2 ^ 53)" by (simp only: of_int_less_iff)
    then have lt: "(of_int (1005 * h) :: rat) / 2 ^ 53 < 1 / 2" by simp
    show ?thesis by (rule divide_strict_right_mono[OF lt wr])
  qed
  finally show ?thesis by (simp add: E_def)
qed

lemma round_near_quotient:
  fixes v :: rat and N d :: int
  assumes "0 < d" and "\<bar>v - of_int N / of_int d\<bar> < 1 / (2 * of_int d)"
  shows "2 * (N mod d) < d \<Longrightarrow> round_half_even v = N div d"
    and "d < 2 * (N mod d) \<Longrightarrow> round_half_even v = N div d + 1"
proof -
  define n where "n = N div d"
  define m where "m = N mod d"
  have N: "N = n * d + m" by (simp add: n_def m_def)
  have m: "0 \<le> m" "m \<le> d - 1"
    using assms(1) pos_mod_sign[of d N] pos_mod_bound[of d N] unfolding m_def by linarith+
  have dr: "(0::rat) < of_int d" using assms(1) by simp
  define t :: rat where "t = 1 / (2 * of_int d)"
  have t: "0 < t" "t \<le> 1 / 2"
  proof -
    show "0 < t" using dr by (simp add: t_def)
    have "(1::rat) \<le> of_int d" using assms(1) by simp
    then show "t \<le> 1 / 2" using dr by (simp add: t_def field_simps)
  qed
  have E: "(of_int N :: rat) / of_int d = of_int n + of_int (2 * m) * t"
    using dr by (simp add: N t_def field_simps)
  have D: "of_int d * t = 1 / 2" using dr by (simp add: t_def)
  have v: "of_int n + of_int (2 * m) * t - t < v" "v < of_int n + of_int (2 * m) * t + t"
    using assms(2) unfolding E t_def[symmetric] abs_less_iff by linarith+
  show "round_half_even v = N div d" if "2 * (N mod d) < d"
  proof -
    from that have "2 * m \<le> d - 1" by (simp add: m_def)
    then have "(of_int (2 * m) :: rat) \<le> of_int (d - 1)" by (simp only: of_int_le_iff)
    then have "of_int (2 * m) * t \<le> of_int (d - 1) * t" using t(1) by (intro mult_right_mono) simp_all
    also have "\<dots> = 1 / 2 - t" using D by (simp add: algebra_simps)
    finally have up: "of_int (2 * m) * t + t \<le> 1 / 2" by simp
    have "(0::rat) \<le> of_int (2 * m)" using m(1) by simp
    then have lo: "0 \<le> of_int (2 * m) * t" using t(1) by simp
    have "of_int n - 1 / 2 < v" "v < of_int n + 1 / 2"
      using v up lo t by linarith+
    then show ?thesis unfolding n_def[symmetric] by (rule round_half_even_near)
  qed
  show "round_half_even v = N div d + 1" if "d < 2 * (N mod d)"
  proof -
    from that have "d + 1 \<le> 2 * m" by (simp add: m_def)
    then have "(of_int (d + 1) :: rat) \<le> of_int (2 * m)" by (simp only: of_int_le_iff)
    then have "of_int (d + 1) * t \<le> of_int (2 * m) * t" using t(1) by (intro mult_right_mono) simp_all
    moreover have "of_int (d + 1) * t = 1 / 2 + t" using D by (simp add: algebra_simps)
    ultimately have lo: "1 / 2 + t \<le> of_int (2 * m) * t" by simp
    have "(of_int (2 * m) :: rat) \<le> of_int (2 * d - 2)" using m(2) by (simp only: of_int_le_iff)
    then have "of_int (2 * m) * t \<le> of_int (2 * d - 2) * t" using t(1) by (intro mult_right_mono) simp_all
    also have "\<dots> = 1 - 2 * t" using D by (simp add: algebra_simps)
    finally have up: "of_int (2 * m) * t \<le> 1 - 2 * t" .
    have "of_int (n + 1) - 1 / 2 < v" "v < of_int (n + 1) + 1 / 2"
      using v up lo t by simp_all
    then show ?thesis unfolding n_def[symmetric] by (rule round_half_even_near)
  qed
qed

lemma sensor_height_float:
  assumes "0 < im_width im" and "0 \<le> im_height im" and "im_height im \<le> 2 ^ 42"
  shows "sensor_height im = Inr \<lfloor>height_float (im_height im) (im_width im)\<rfloor>"
  using assms height_float_error(2)[OF assms]
  by (simp add: sensor_height_def truediv_def height_float_def py_int_def)

lemma floor_within_one:
  fixes v :: rat and q d :: int
  assumes "0 < d" and "\<bar>v - of_int q\<bar> < 1 / of_int d"
  shows "q - 1 \<le> \<lfloor>v\<rfloor> \<and> \<lfloor>v\<rfloor> \<le> q"
proof -
  have "(1::rat) \<le> of_int d" using assms(1) by simp
  then have "(1::rat) / of_int d \<le> 1" by simp
  with assms(2) have "of_int q - 1 < v" "v < of_int q + 1"
    unfolding abs_less_iff by linarith+
  then have "of_int (q - 1) \<le> v" "v < of_int (q + 1)" by simp_all
  then have "q - 1 \<le> \<lfloor>v\<rfloor>" "\<lfloor>v\<rfloor> < q + 1"
    by (simp_all only: le_floor_iff floor_less_iff)
  then show ?thesis by linarith
qed

lemma sensor_height_19_19:
  "sensor_height (new_image ''RGB'' (19, 19) (255, 255, 255)) = Inr 499"
  by code_simp

lemma sensor_height_zero_width:
  "im_width im = 0 \<Longrightarrow> sensor_height im = Inl ZeroDivisionError"
  by (simp add: sensor_height_def truediv_def)

lemma resize_size:
  assumes "resize filt im sz = Inr im'"
  shows "im_width im' = fst sz \<and> im_height im' = snd sz \<and> im_mode im' = im_mode im"
  using assms by (auto simp: resize_def split: if_splits option.splits)

text \<open>
  Claim C3 says that the height of the resized asset is \<open>h * (500 / w)\<close> rounded to the
  nearest integer.  The script converts the float with \<^verbatim>\<open>int(...)\<close>, which truncates: for
  an asset 2000 wide and 1203 high the product is 300.75, \<^verbatim>\<open>round\<close> gives 301, and the
  script computes 300.
\<close>

theorem resized_height_is_not_rounded_counterexample:
  "im_width (new_image ''RGB'' (2000, 1203) (255, 255, 255)) = 2000
   \<and> im_height (new_image ''RGB'' (2000, 1203) (255, 255, 255)) = 1203
   \<and> sensor_height (new_image ''RGB'' (2000, 1203) (255, 255, 255)) = Inr 300
   \<and> (1203 * (500 / 2000) :: rat) = 300 + 3 / 4
   \<and> round (1203 * (500 / 2000) :: rat) = 301
   \<and> py_round (height_float 1203 2000) = 301"
  by code_simp

text \<open>
  Claim C3, amended.  For an asset of width \<open>w > 0\<close> and height \<open>0 \<le> h \<le> 2\<^sup>4\<^sup>2\<close> the script
  computes the height \<open>n\<close> that it asks of the resize as the binary64 value of
  \<open>h * (500 / w)\<close> truncated toward zero.  It is the quotient \<open>500 * h div w\<close> of the floor
  division whenever \<open>w\<close> does not divide \<open>500 * h\<close>; when \<open>w\<close> divides \<open>500 * h\<close> it is the
  exact quotient or, through the rounding of \<open>500 / w\<close>, one less (499 for \<open>w = h = 19\<close>).
  Against \<^verbatim>\<open>round\<close> on the same float: where the fractional part of \<open>500 * h / w\<close> is more
  than one half, \<open>n\<close> is one less than the rounded value; where it is less than one half and
  not zero, the two agree.  Every image that the resize returns is 500 wide and \<open>n\<close> high.
\<close>

theorem resized_height_truncates:
  assumes "0 < im_width im" and "0 \<le> im_height im" and "im_height im \<le> 2 ^ 42"
  shows "\<exists>n. sensor_height im = Inr n
           \<and> 500 * im_height im div im_width im - 1 \<le> n
           \<and> n \<le> 500 * im_height im div im_width im
           \<and> (\<not> im_width im dvd 500 * im_height im \<longrightarrow> n = 500 * im_height im div im_width im)
           \<and> (im_width im < 2 * (500 * im_height im mod im_width im) \<longrightarrow>
                py_round (height_float (im_height im) (im_width im)) = n + 1)
           \<and> (500 * im_height im mod im_width im \<noteq> 0
                \<and> 2 * (500 * im_height im mod im_width im) < im_width im \<longrightarrow>
                py_round (height_float (im_height im) (im_width im)) = n)
           \<and> (\<forall>im'. resize filt im (sensor_width, n) = Inr im' \<longrightarrow>
                im_width im' = 500 \<and> im_height im' = n)"
proof -
  let ?w = "im_width im"
  let ?h = "im_height im"
  define n where "n = \<lfloor>height_float ?h ?w\<rfloor>"
  note w = assms(1)
  have sh: "sensor_height im = Inr n"
    using sensor_height_float[OF assms] by (simp add: n_def)
  note err = height_float_error(1)[OF assms]
  note err2 = height_float_error_half[OF assms]
  have exact: "n = 500 * ?h div ?w" if "\<not> ?w dvd 500 * ?h"
  proof -
    from that have "(500 * ?h) mod ?w \<noteq> 0" by (simp add: dvd_eq_mod_eq_0)
    from floor_near[OF w err this] show ?thesis by (simp add: n_def)
  qed
  have near: "500 * ?h div ?w - 1 \<le> n \<and> n \<le> 500 * ?h div ?w"
  proof (cases "?w dvd 500 * ?h")
    case True
    then obtain q where q: "500 * ?h = ?w * q" by (auto simp: dvd_def)
    have "(of_int (500 * ?h) :: rat) / of_int ?w = of_int q"
      using w unfolding q by simp
    with err have "\<bar>height_float ?h ?w - of_int q\<bar> < 1 / of_int ?w" by simp
    from floor_within_one[OF w this] have "q - 1 \<le> n \<and> n \<le> q" by (simp add: n_def)
    moreover have "500 * ?h div ?w = q" using w unfolding q by simp
    ultimately show ?thesis by simp
  next
    case False
    from exact[OF this] show ?thesis by simp
  qed
  have above: "py_round (height_float ?h ?w) = n + 1" if r: "?w < 2 * (500 * ?h mod ?w)"
  proof -
    from r w have "500 * ?h mod ?w \<noteq> 0" by auto
    then have "\<not> ?w dvd 500 * ?h" by (simp add: dvd_eq_mod_eq_0)
    from exact[OF this] round_near_quotient(2)[OF w err2 r] show ?thesis
      by (simp add: py_round_def)
  qed
  have below: "py_round (height_float ?h ?w) = n"
    if r: "500 * ?h mod ?w \<noteq> 0" "2 * (500 * ?h mod ?w) < ?w"
  proof -
    from r(1) have "\<not> ?w dvd 500 * ?h" by (simp add: dvd_eq_mod_eq_0)
    from exact[OF this] round_near_quotient(1)[OF w err2 r(2)] show ?thesis
      by (simp add: py_round_def)
  qed
  have rs: "im_width im' = 500 \<and> im_height im' = n"
    if "resize filt im (sensor_width, n) = Inr im'" for im'
    using resize_size[OF that] by (simp add: sensor_width_def)
  show ?thesis
  proof (intro exI[of _ n] conjI impI allI)
    show "sensor_height im = Inr n" by (rule sh)
    show "500 * ?h div ?w - 1 \<le> n" using near by simp
    show "n \<le> 500 * ?h div ?w" using near by simp
    show "n = 500 * ?h div ?w" if "\<not> ?w dvd 500 * ?h" using exact[OF that] .
    show "py_round (height_float ?h ?w) = n + 1" if "?w < 2 * (500 * ?h mod ?w)"
      using above[OF that] .
    show "py_round (height_float ?h ?w) = n"
      if "500 * ?h mod ?w \<noteq> 0 \<and> 2 * (500 * ?h mod ?w) < ?w"
      using below[OF conjunct1[OF that] conjunct2[OF that]] .
    show "im_width im' = 500" if "resize filt im (sensor_width, n) = Inr im'" for im'
      using rs[OF that] by simp
    show "im_height im' = n" if "resize filt im (sensor_width, n) = Inr im'" for im'
      using rs[OF that] by simp
  qed
qed

theorem resized_height_truncates_witness:
  "0 < im_width (new_image ''RGB'' (2000, 1203) (255, 255, 255))
   \<and> 0 \<le> im_height (new_image ''RGB'' (2000, 1203) (255, 255, 255))
   \<and> im_height (new_image ''RGB'' (2000, 1203) (255, 255, 255)) \<le> 2 ^ 42
   \<and> \<not> (2000::int) dvd 500 * 1203
   \<and> (2000::int) < 2 * (500 * 1203 mod 2000)
   \<and> sensor_height (new_image ''RGB'' (2000, 1203) (255, 255, 255)) = Inr (500 * 1203 div 2000)
   \<and> py_round (height_float 1203 2000) = 301
   \<and> (\<exists>im'. resize identity_filter (new_image ''RGB'' (2000, 1203) (255, 255, 255))
               (sensor_width, 300) = Inr im'
            \<and> im_width im' = 500 \<and> im_height im' = 300)
   \<and> (500 * 1201 mod 2000 :: int) \<noteq> 0
   \<and> 2 * (500 * 1201 mod 2000) < (2000::int)
   \<and> sensor_height (new_image ''RGB'' (2000, 1201) (255, 255, 255)) = Inr 300
   \<and> py_round (height_float 1201 2000) = 300"
proof -
  have a: "0 < im_width (new_image ''RGB'' (2000, 1203) (255, 255, 255))"
    "0 \<le> im_height (new_image ''RGB'' (2000, 1203) (255, 255, 255))"
    "im_height (new_image ''RGB'' (2000, 1203) (255, 255, 255)) \<le> 2 ^ 42"
    by (simp_all add: new_image_def)
  have b: "0 < im_width (new_image ''RGB'' (2000, 1201) (255, 255, 255))"
    "0 \<le> im_height (new_image ''RGB'' (2000, 1201) (255, 255, 255))"
    "im_height (new_image ''RGB'' (2000, 1201) (255, 255, 255)) \<le> 2 ^ 42"
    by (simp_all add: new_image_def)
  have d: "\<not> (2000::int) dvd 500 * 1203" "(2000::int) < 2 * (500 * 1203 mod 2000)"
    "(500 * 1201 mod 2000 :: int) \<noteq> 0" "2 * (500 * 1201 mod 2000) < (2000::int)"
    by simp_all
  from resized_height_truncates[OF a, of identity_filter]
  obtain n where n: "sensor_height (new_image ''RGB'' (2000, 1203) (255, 255, 255)) = Inr n"
    "n = 300"
    "py_round (height_float 1203 2000) = n + 1"
    "\<forall>im'. resize identity_filter (new_image ''RGB'' (2000, 1203) (255, 255, 255))
             (sensor_width, n) = Inr im' \<longrightarrow> im_width im' = 500 \<and> im_height im' = n"
    by (auto simp: new_image_def)
  from resized_height_truncates[OF b, of identity_filter]
  obtain k where k: "sensor_height (new_image ''RGB'' (2000, 1201) (255, 255, 255)) = Inr k"
    "k = 300"
    "py_round (height_float 1201 2000) = k"
    by (auto simp: new_image_def)
  have "\<exists>im'. resize identity_filter (new_image ''RGB'' (2000, 1203) (255, 255, 255))
               (sensor_width, 300) = Inr im'"
    by (simp add: resize_def c_int_def identity_filter_def sensor_width_def)
  with n(2,4) have rz: "\<exists>im'. resize identity_filter (new_image ''RGB'' (2000, 1203) (255, 255, 255))
               (sensor_width, 300) = Inr im' \<and> im_width im' = 500 \<and> im_height im' = 300"
    by blast
  show ?thesis using a d n(1,2,3) k rz by simp
qed

end
